theory Spec2Isabelle
  imports Complex_Main
begin

section \<open>Numbers, coordinates and great-circle distance\<close>

text \<open>
  JavaScript numbers are modelled as exact reals: rounding, signed zeros, NaN and the
  infinities are outside the model.  A \<^verbatim>\<open>Date\<close> is modelled by its time
  value, an integer number of milliseconds; \<^verbatim>\<open>null\<close> is \<open>None\<close>.
\<close>

record coord =
  lat :: real
  lng :: real

definition toRad :: "real \<Rightarrow> real" where
  "toRad deg = deg * (pi / 180)"

text \<open>\<^verbatim>\<open>Math.atan2(y, x)\<close> on reals, quadrant by quadrant.\<close>

definition math_atan2 :: "real \<Rightarrow> real \<Rightarrow> real" where
  "math_atan2 y x =
     (if 0 < x then arctan (y / x)
      else if x < 0 then (if 0 \<le> y then arctan (y / x) + pi else arctan (y / x) - pi)
      else if 0 < y then pi / 2
      else if y < 0 then - (pi / 2)
      else 0)"

definition haversine_a :: "coord \<Rightarrow> coord \<Rightarrow> real" where
  "haversine_a coord1 coord2 =
     (let dLat = toRad (lat coord2 - lat coord1);
          dLon = toRad (lng coord2 - lng coord1)
      in sin (dLat / 2) * sin (dLat / 2) +
         cos (toRad (lat coord1)) * cos (toRad (lat coord2)) *
         sin (dLon / 2) * sin (dLon / 2))"

definition haversineDistance :: "coord \<Rightarrow> coord \<Rightarrow> real" where
  "haversineDistance coord1 coord2 =
     (let R = 6371;
          a = haversine_a coord1 coord2;
          c = 2 * math_atan2 (sqrt a) (sqrt (1 - a))
      in R * c)"



lemma haversine_a_same: "haversine_a p p = 0"
  by (simp add: haversine_a_def toRad_def)

lemma haversineDistance_same: "haversineDistance p p = 0"
  by (simp add: haversineDistance_def Let_def haversine_a_same math_atan2_def)


subsection \<open>The haversine term lies in the unit interval\<close>






section \<open>Elevation statistics\<close>

record elev_stats =
  gain :: real
  loss :: real
  min_v :: real
  max_v :: real

text \<open>
  An elevation sample is \<open>None\<close> when it is \<^verbatim>\<open>null\<close> or NaN: the filter
  \<^verbatim>\<open>e !== null && !isNaN(e)\<close> removes exactly those.
\<close>

definition validElevations :: "real option list \<Rightarrow> real list" where
  "validElevations elevations = map the (filter (\<lambda>e. e \<noteq> None) elevations)"

text \<open>The body of the \<^verbatim>\<open>for\<close> loop, from index 1 on; \<open>prev\<close> is element \<open>i - 1\<close>.\<close>

fun elev_loop :: "real \<Rightarrow> real list \<Rightarrow> elev_stats \<Rightarrow> elev_stats" where
  "elev_loop prev [] st = st"
| "elev_loop prev (x # xs) st =
     (let diff = x - prev;
          st1 = (if diff > 0 then st\<lparr>gain := gain st + diff\<rparr>
                 else st\<lparr>loss := loss st + \<bar>diff\<bar>\<rparr>);
          st2 = (if x < min_v st1 then st1\<lparr>min_v := x\<rparr> else st1);
          st3 = (if x > max_v st2 then st2\<lparr>max_v := x\<rparr> else st2)
      in elev_loop x xs st3)"

definition calculateElevationStats :: "real option list \<Rightarrow> elev_stats" where
  "calculateElevationStats elevations =
     (if elevations = [] then \<lparr>gain = 0, loss = 0, min_v = 0, max_v = 0\<rparr>
      else case validElevations elevations of
        [] \<Rightarrow> \<lparr>gain = 0, loss = 0, min_v = 0, max_v = 0\<rparr>
      | v0 # rest \<Rightarrow> elev_loop v0 rest \<lparr>gain = 0, loss = 0, min_v = v0, max_v = v0\<rparr>)"

text \<open>Consecutive pairs of a sequence, and the two one-sided delta sums.\<close>

definition positive_deltas :: "real list \<Rightarrow> real" where
  "positive_deltas v = sum_list (map (\<lambda>(a, b). max 0 (b - a)) (zip v (tl v)))"

definition negative_deltas :: "real list \<Rightarrow> real" where
  "negative_deltas v = sum_list (map (\<lambda>(a, b). max 0 (a - b)) (zip v (tl v)))"

lemma elev_loop_gain:
  "gain (elev_loop prev xs st) = gain st + positive_deltas (prev # xs)"
  by (induction xs arbitrary: prev st) (simp_all add: positive_deltas_def Let_def)

lemma elev_loop_loss:
  "loss (elev_loop prev xs st) = loss st + negative_deltas (prev # xs)"
  by (induction xs arbitrary: prev st) (simp_all add: negative_deltas_def Let_def)

lemma elev_loop_min:
  "min_v (elev_loop prev xs st) = fold min xs (min_v st)"
  by (induction xs arbitrary: prev st) (simp_all add: Let_def min_def)

lemma elev_loop_max:
  "max_v (elev_loop prev xs st) = fold max xs (max_v st)"
  by (induction xs arbitrary: prev st) (simp_all add: Let_def max_def)

text \<open>
  C9: \<open>calculateElevationStats\<close> returns, over the non-null subsequence in its
  original order, the sum of the positive deltas as gain, the sum of the absolute
  negative deltas as loss, and the minimum and maximum; all four are 0 on an empty or
  all-null input; \<open>[100, 120, 110, 130]\<close> gives gain 40, loss 10, min 100, max 130.
\<close>

theorem calculateElevationStats_spec:
  "calculateElevationStats elevations =
     (let v = map the (filter (\<lambda>e. e \<noteq> None) elevations)
      in if v = [] then \<lparr>gain = 0, loss = 0, min_v = 0, max_v = 0\<rparr>
         else \<lparr>gain = positive_deltas v, loss = negative_deltas v,
               min_v = Min (set v), max_v = Max (set v)\<rparr>)
   \<and> calculateElevationStats [Some 100, Some 120, Some 110, Some 130] =
       \<lparr>gain = 40, loss = 10, min_v = 100, max_v = 130\<rparr>
   \<and> calculateElevationStats [] = \<lparr>gain = 0, loss = 0, min_v = 0, max_v = 0\<rparr>"
proof (intro conjI)
  show "calculateElevationStats [Some 100, Some 120, Some 110, Some 130] =
       \<lparr>gain = 40, loss = 10, min_v = 100, max_v = 130\<rparr>"
    by (simp add: calculateElevationStats_def validElevations_def Let_def)
  show "calculateElevationStats [] = \<lparr>gain = 0, loss = 0, min_v = 0, max_v = 0\<rparr>"
    by (simp add: calculateElevationStats_def)
  show "calculateElevationStats elevations =
     (let v = map the (filter (\<lambda>e. e \<noteq> None) elevations)
      in if v = [] then \<lparr>gain = 0, loss = 0, min_v = 0, max_v = 0\<rparr>
         else \<lparr>gain = positive_deltas v, loss = negative_deltas v,
               min_v = Min (set v), max_v = Max (set v)\<rparr>)"
  proof (cases "validElevations elevations")
    case Nil
    then show ?thesis by (simp add: calculateElevationStats_def validElevations_def)
  next
    case (Cons v0 rest)
    then have ne: "elevations \<noteq> []" by (auto simp: validElevations_def)
    have "elev_loop v0 rest \<lparr>gain = 0, loss = 0, min_v = v0, max_v = v0\<rparr> =
          \<lparr>gain = positive_deltas (v0 # rest), loss = negative_deltas (v0 # rest),
           min_v = Min (set (v0 # rest)), max_v = Max (set (v0 # rest))\<rparr>"
      by (rule elev_stats.equality)
         (simp_all add: elev_loop_gain elev_loop_loss elev_loop_min elev_loop_max
            Min.set_eq_fold Max.set_eq_fold del: set_simps)
    with Cons ne show ?thesis
      by (simp add: calculateElevationStats_def validElevations_def Let_def)
  qed
qed

section \<open>GPS cleaning\<close>

text \<open>
  Arrays of nullable samples are lists of options.  Reading a JavaScript array past its
  end gives \<^verbatim>\<open>undefined\<close>, which every guard below treats like
  \<^verbatim>\<open>null\<close>; \<open>read\<close> is that read.
\<close>

definition read :: "'a option list \<Rightarrow> nat \<Rightarrow> 'a option" where
  "read xs i = (if i < length xs then xs ! i else None)"

text \<open>\<^verbatim>\<open>!x\<close> for a number or null: true for null and for 0.\<close>

definition falsy :: "real option \<Rightarrow> bool" where
  "falsy x = (case x of None \<Rightarrow> True | Some v \<Rightarrow> v = 0)"

text \<open>
  One iteration of the loop of \<^verbatim>\<open>filterAccelerationSpikes\<close>: the value pushed
  at index \<open>i \<ge> 1\<close>.  A \<^verbatim>\<open>Date\<close> is truthy, so \<^verbatim>\<open>!timestamps[i]\<close>
  holds for a missing timestamp only.
\<close>

definition accel_step :: "real option list \<Rightarrow> int option list \<Rightarrow> real \<Rightarrow> nat \<Rightarrow> real option" where
  "accel_step speeds timestamps maxAcceleration i =
     (if falsy (read speeds i) \<or> falsy (read speeds (i - 1)) \<or>
         read timestamps i = None \<or> read timestamps (i - 1) = None
      then read speeds i
      else
        let deltaSpeed = \<bar>the (read speeds i) - the (read speeds (i - 1))\<bar> * (1000 / 3600);
            deltaTime = real_of_int (the (read timestamps i) - the (read timestamps (i - 1))) / 1000
        in if deltaTime > 0
           then
             let acceleration = deltaSpeed / deltaTime
             in if acceleration > maxAcceleration then None else read speeds i
           else read speeds i)"

function accel_loop ::
  "real option list \<Rightarrow> int option list \<Rightarrow> real \<Rightarrow> nat \<Rightarrow> real option list \<Rightarrow> real option list"
where
  "accel_loop speeds timestamps maxAcceleration i filtered =
     (if i < length speeds
      then accel_loop speeds timestamps maxAcceleration (i + 1)
             (filtered @ [accel_step speeds timestamps maxAcceleration i])
      else filtered)"
  by pat_completeness auto
termination
  by (relation "measure (\<lambda>(speeds, timestamps, m, i, filtered). length speeds - i)") auto

declare accel_loop.simps [simp del]

text \<open>
  A \<^verbatim>\<open>null\<close> timestamps array takes the early return and yields \<open>speeds\<close>,
  which is also what the loop yields on an empty timestamps list.
\<close>

definition filterAccelerationSpikes ::
  "real option list \<Rightarrow> int option list \<Rightarrow> real \<Rightarrow> real option list" where
  "filterAccelerationSpikes speeds timestamps maxAcceleration =
     (if length speeds < 2 then speeds
      else accel_loop speeds timestamps maxAcceleration 1 [speeds ! 0])"

text \<open>One iteration of the loop of \<^verbatim>\<open>filterDistanceJumps\<close>.\<close>

definition jump_step :: "coord list \<Rightarrow> int option list \<Rightarrow> real \<Rightarrow> nat \<Rightarrow> bool" where
  "jump_step coordinates timestamps maxSpeedKmh i =
     (if read timestamps i = None \<or> read timestamps (i - 1) = None then True
      else
        let distance = haversineDistance (coordinates ! (i - 1)) (coordinates ! i) * 1000;
            deltaTime = real_of_int (the (read timestamps i) - the (read timestamps (i - 1))) / 1000
        in if deltaTime > 0
           then
             let impliedSpeed = (distance / deltaTime) * 3.6
             in if impliedSpeed > maxSpeedKmh then False else True
           else True)"

function jump_loop ::
  "coord list \<Rightarrow> int option list \<Rightarrow> real \<Rightarrow> nat \<Rightarrow> bool list \<Rightarrow> bool list"
where
  "jump_loop coordinates timestamps maxSpeedKmh i validFlags =
     (if i < length coordinates
      then jump_loop coordinates timestamps maxSpeedKmh (i + 1)
             (validFlags @ [jump_step coordinates timestamps maxSpeedKmh i])
      else validFlags)"
  by pat_completeness auto
termination
  by (relation "measure (\<lambda>(coordinates, timestamps, m, i, validFlags). length coordinates - i)") auto

declare jump_loop.simps [simp del]

definition filterDistanceJumps :: "coord list \<Rightarrow> int option list \<Rightarrow> real \<Rightarrow> bool list" where
  "filterDistanceJumps coordinates timestamps maxSpeedKmh =
     (if length coordinates < 2 then map (\<lambda>_. True) coordinates
      else jump_loop coordinates timestamps maxSpeedKmh 1 [True])"

record cleaned =
  c_speeds :: "real option list"
  c_paces :: "real option list"
  validIndices :: "nat list"

text \<open>
  \<^verbatim>\<open>a[i] = null\<close>: an assignment past the end of a JavaScript array extends it;
  the holes read as \<^verbatim>\<open>undefined\<close>.
\<close>

definition set_null :: "'a option list \<Rightarrow> nat \<Rightarrow> 'a option list" where
  "set_null xs i =
     (if i < length xs then xs[i := None] else xs @ replicate (i - length xs) None @ [None])"

text \<open>\<^verbatim>\<open>ToNumber\<close> of a number or null, for the comparisons with \<^verbatim>\<open>maxSpeed\<close> and 0.\<close>

definition to_number :: "real option \<Rightarrow> real" where
  "to_number x = (case x of None \<Rightarrow> 0 | Some v \<Rightarrow> v)"

definition clean_step ::
  "real option list \<Rightarrow> bool list \<Rightarrow> real option list \<Rightarrow> real \<Rightarrow> nat \<Rightarrow> cleaned \<Rightarrow> cleaned" where
  "clean_step speeds distanceFlags accelFiltered maxSpeed i c =
     (if \<not> (i < length distanceFlags \<and> distanceFlags ! i) \<or> read accelFiltered i = None
      then c\<lparr>c_speeds := set_null (c_speeds c) i, c_paces := set_null (c_paces c) i\<rparr>
      else if to_number (read speeds i) > maxSpeed \<or> to_number (read speeds i) < 0
      then c\<lparr>c_speeds := set_null (c_speeds c) i, c_paces := set_null (c_paces c) i\<rparr>
      else c\<lparr>validIndices := validIndices c @ [i]\<rparr>)"

function clean_loop ::
  "real option list \<Rightarrow> bool list \<Rightarrow> real option list \<Rightarrow> real \<Rightarrow> nat \<Rightarrow> cleaned \<Rightarrow> cleaned" where
  "clean_loop speeds distanceFlags accelFiltered maxSpeed i c =
     (if i < length speeds
      then clean_loop speeds distanceFlags accelFiltered maxSpeed (i + 1)
             (clean_step speeds distanceFlags accelFiltered maxSpeed i c)
      else c)"
  by pat_completeness auto
termination
  by (relation "measure (\<lambda>(speeds, f, a, m, i, c). length speeds - i)") auto

declare clean_loop.simps [simp del]

definition cleanGPSData ::
  "real option list \<Rightarrow> real option list \<Rightarrow> coord list \<Rightarrow> int option list \<Rightarrow> real \<Rightarrow> cleaned" where
  "cleanGPSData speeds paces coordinates timestamps maxSpeed =
     (let distanceFlags = filterDistanceJumps coordinates timestamps maxSpeed;
          accelFiltered = filterAccelerationSpikes speeds timestamps 10
      in clean_loop speeds distanceFlags accelFiltered maxSpeed 0
           \<lparr>c_speeds = speeds, c_paces = paces, validIndices = []\<rparr>)"

subsection \<open>The acceleration filter, index by index\<close>

lemma accel_loop_eq:
  "i \<le> length speeds \<Longrightarrow>
   accel_loop speeds ts m i acc = acc @ map (accel_step speeds ts m) [i..<length speeds]"
proof (induction speeds ts m i acc rule: accel_loop.induct)
  case (1 speeds ts m i acc)
  show ?case
  proof (cases "i < length speeds")
    case True
    then have "accel_loop speeds ts m i acc =
        (acc @ [accel_step speeds ts m i]) @ map (accel_step speeds ts m) [i + 1..<length speeds]"
      using "1.IH" by (subst accel_loop.simps) simp
    also have "\<dots> = acc @ map (accel_step speeds ts m) [i..<length speeds]"
      using True by (simp add: upt_conv_Cons)
    finally show ?thesis .
  next
    case False
    with "1.prems" show ?thesis by (subst accel_loop.simps) simp
  qed
qed

lemma filterAccelerationSpikes_length:
  "length (filterAccelerationSpikes speeds ts m) = length speeds"
  by (auto simp: filterAccelerationSpikes_def accel_loop_eq)

lemma filterAccelerationSpikes_0:
  "speeds \<noteq> [] \<Longrightarrow> filterAccelerationSpikes speeds ts m ! 0 = speeds ! 0"
  by (simp add: filterAccelerationSpikes_def accel_loop_eq)

lemma filterAccelerationSpikes_nth:
  assumes "2 \<le> length speeds" "1 \<le> i" "i < length speeds"
  shows "filterAccelerationSpikes speeds ts m ! i = accel_step speeds ts m i"
proof -
  have "filterAccelerationSpikes speeds ts m =
        speeds ! 0 # map (accel_step speeds ts m) [1..<length speeds]"
    using assms by (simp add: filterAccelerationSpikes_def accel_loop_eq)
  moreover obtain j where "i = Suc j" using assms(2) by (cases i) auto
  ultimately show ?thesis using assms by simp
qed

lemma filterAccelerationSpikes_None:
  assumes "i < length speeds" "speeds ! i = None"
  shows "filterAccelerationSpikes speeds ts m ! i = None"
proof (cases "length speeds < 2")
  case True
  with assms show ?thesis by (simp add: filterAccelerationSpikes_def)
next
  case False
  show ?thesis
  proof (cases i)
    case 0
    with assms filterAccelerationSpikes_0 [of speeds ts m] show ?thesis by auto
  next
    case (Suc j)
    with assms False have "filterAccelerationSpikes speeds ts m ! i = accel_step speeds ts m i"
      by (intro filterAccelerationSpikes_nth) auto
    with assms show ?thesis by (simp add: accel_step_def read_def falsy_def)
  qed
qed

lemma filterAccelerationSpikes_Some:
  assumes "i < length speeds" "filterAccelerationSpikes speeds ts m ! i \<noteq> None"
  shows "filterAccelerationSpikes speeds ts m ! i = speeds ! i"
proof (cases "length speeds < 2")
  case True
  with assms show ?thesis by (simp add: filterAccelerationSpikes_def)
next
  case False
  show ?thesis
  proof (cases i)
    case 0
    with assms filterAccelerationSpikes_0 [of speeds ts m] show ?thesis by auto
  next
    case (Suc j)
    with assms False have "filterAccelerationSpikes speeds ts m ! i = accel_step speeds ts m i"
      by (intro filterAccelerationSpikes_nth) auto
    with assms show ?thesis by (auto simp: accel_step_def read_def Let_def split: if_splits)
  qed
qed





subsection \<open>The cleaning loop\<close>

text \<open>The condition under which one iteration of the cleaning loop nulls index \<open>j\<close>.\<close>

definition clean_bad :: "real option list \<Rightarrow> bool list \<Rightarrow> real option list \<Rightarrow> real \<Rightarrow> nat \<Rightarrow> bool" where
  "clean_bad speeds flags accel maxSpeed j =
     (\<not> (j < length flags \<and> flags ! j) \<or> read accel j = None \<or>
      to_number (read speeds j) > maxSpeed \<or> to_number (read speeds j) < 0)"

lemma clean_step_eq:
  assumes "i < length (c_speeds c)" "i < length (c_paces c)"
  shows "clean_step speeds flags accel maxSpeed i c =
     (if clean_bad speeds flags accel maxSpeed i
      then c\<lparr>c_speeds := (c_speeds c)[i := None], c_paces := (c_paces c)[i := None]\<rparr>
      else c\<lparr>validIndices := validIndices c @ [i]\<rparr>)"
  using assms by (auto simp: clean_step_def clean_bad_def set_null_def)

lemma clean_loop_spec:
  assumes "i \<le> length speeds" "length (c_speeds c) = length speeds"
    "length (c_paces c) = length speeds"
  shows "clean_loop speeds flags accel maxSpeed i c =
     \<lparr>c_speeds = map (\<lambda>j. if i \<le> j \<and> clean_bad speeds flags accel maxSpeed j then None
                          else c_speeds c ! j) [0..<length speeds],
      c_paces = map (\<lambda>j. if i \<le> j \<and> clean_bad speeds flags accel maxSpeed j then None
                         else c_paces c ! j) [0..<length speeds],
      validIndices = validIndices c @
         filter (\<lambda>j. \<not> clean_bad speeds flags accel maxSpeed j) [i..<length speeds]\<rparr>"
  using assms
proof (induction speeds flags accel maxSpeed i c rule: clean_loop.induct)
  case (1 speeds flags accel maxSpeed i c)
  let ?bad = "clean_bad speeds flags accel maxSpeed"
  show ?case
  proof (cases "i < length speeds")
    case False
    with "1.prems" have "i = length speeds" by simp
    with "1.prems" show ?thesis
      by (subst clean_loop.simps) (auto intro!: cleaned.equality nth_equalityI)
  next
    case True
    let ?c' = "clean_step speeds flags accel maxSpeed i c"
    have c': "?c' = (if ?bad i
      then c\<lparr>c_speeds := (c_speeds c)[i := None], c_paces := (c_paces c)[i := None]\<rparr>
      else c\<lparr>validIndices := validIndices c @ [i]\<rparr>)"
      using True "1.prems" by (intro clean_step_eq) auto
    have len: "length (c_speeds ?c') = length speeds" "length (c_paces ?c') = length speeds"
      using "1.prems" by (auto simp: c')
    have IH: "clean_loop speeds flags accel maxSpeed (i + 1) ?c' =
      \<lparr>c_speeds = map (\<lambda>j. if i + 1 \<le> j \<and> ?bad j then None else c_speeds ?c' ! j)
                   [0..<length speeds],
       c_paces = map (\<lambda>j. if i + 1 \<le> j \<and> ?bad j then None else c_paces ?c' ! j)
                   [0..<length speeds],
       validIndices = validIndices ?c' @ filter (\<lambda>j. \<not> ?bad j) [i + 1..<length speeds]\<rparr>"
      using True len by (intro "1.IH") auto
    have e: "i + 1 \<le> j \<longleftrightarrow> i \<le> j \<and> j \<noteq> i" for j by auto
    have s: "map (\<lambda>j. if i + 1 \<le> j \<and> ?bad j then None else c_speeds ?c' ! j) [0..<length speeds]
           = map (\<lambda>j. if i \<le> j \<and> ?bad j then None else c_speeds c ! j) [0..<length speeds]"
      using "1.prems" True by (auto simp: c' e nth_list_update simp del: One_nat_def)
    have p: "map (\<lambda>j. if i + 1 \<le> j \<and> ?bad j then None else c_paces ?c' ! j) [0..<length speeds]
           = map (\<lambda>j. if i \<le> j \<and> ?bad j then None else c_paces c ! j) [0..<length speeds]"
      using "1.prems" True by (auto simp: c' e nth_list_update simp del: One_nat_def)
    have v: "validIndices ?c' @ filter (\<lambda>j. \<not> ?bad j) [i + 1..<length speeds]
           = validIndices c @ filter (\<lambda>j. \<not> ?bad j) [i..<length speeds]"
      using True by (simp add: c' upt_conv_Cons)
    have "clean_loop speeds flags accel maxSpeed i c =
          clean_loop speeds flags accel maxSpeed (i + 1) ?c'"
      using True by (subst clean_loop.simps) simp
    then show ?thesis
      by (simp only: IH s p v)
  qed
qed

text \<open>
  C5: when speeds and paces are null at the same indices, the cleaned speed and pace of
  a point are null together; a point is invalidated exactly when its distance flag is
  not true, or its acceleration-filtered speed is null, or its raw speed lies outside
  \<open>[0, maxSpeed]\<close>, and is otherwise left as it was; \<open>validIndices\<close> holds
  exactly the other indices, in order; and at each of them the cleaned speed is the raw
  speed, non-null and within \<open>[0, maxSpeed]\<close>.
\<close>

theorem cleanGPSData_spec:
  assumes "length paces = length speeds"
    and "\<forall>i < length speeds. speeds ! i = None \<longleftrightarrow> paces ! i = None"
  shows
    "let r = cleanGPSData speeds paces coordinates timestamps maxSpeed;
         flags = filterDistanceJumps coordinates timestamps maxSpeed;
         accel = filterAccelerationSpikes speeds timestamps 10;
         invalid = (\<lambda>i. \<not> (i < length flags \<and> flags ! i) \<or> accel ! i = None \<or>
                        (\<exists>s. speeds ! i = Some s \<and> (s > maxSpeed \<or> s < 0)))
     in length (c_speeds r) = length speeds \<and> length (c_paces r) = length speeds
      \<and> (\<forall>i < length speeds. c_speeds r ! i = None \<longleftrightarrow> c_paces r ! i = None)
      \<and> (\<forall>i < length speeds. invalid i \<longrightarrow> c_speeds r ! i = None \<and> c_paces r ! i = None)
      \<and> (\<forall>i < length speeds. \<not> invalid i \<longrightarrow>
            c_speeds r ! i = speeds ! i \<and> c_paces r ! i = paces ! i)
      \<and> validIndices r = filter (\<lambda>i. \<not> invalid i) [0..<length speeds]
      \<and> (\<forall>i \<in> set (validIndices r). \<exists>s. c_speeds r ! i = Some s \<and> speeds ! i = Some s \<and>
            0 \<le> s \<and> s \<le> maxSpeed)"
proof -
  define flags where "flags = filterDistanceJumps coordinates timestamps maxSpeed"
  define accel where "accel = filterAccelerationSpikes speeds timestamps 10"
  define invalid where "invalid = (\<lambda>i. \<not> (i < length flags \<and> flags ! i) \<or> accel ! i = None \<or>
                        (\<exists>s. speeds ! i = Some s \<and> (s > maxSpeed \<or> s < 0)))"
  define r where "r = cleanGPSData speeds paces coordinates timestamps maxSpeed"
  let ?bad = "clean_bad speeds flags accel maxSpeed"
  have alen: "length accel = length speeds"
    by (simp add: accel_def filterAccelerationSpikes_length)
  have aNone: "accel ! i = None" if "i < length speeds" "speeds ! i = None" for i
    using that by (simp add: accel_def filterAccelerationSpikes_None)
  have bad: "?bad i \<longleftrightarrow> invalid i" if "i < length speeds" for i
  proof (cases "speeds ! i")
    case None
    with that aNone [of i] show ?thesis
      by (simp add: clean_bad_def invalid_def read_def alen)
  next
    case (Some s)
    with that show ?thesis
      by (auto simp: clean_bad_def invalid_def read_def alen to_number_def)
  qed
  have r: "r = \<lparr>c_speeds = map (\<lambda>j. if ?bad j then None else speeds ! j) [0..<length speeds],
                c_paces = map (\<lambda>j. if ?bad j then None else paces ! j) [0..<length speeds],
                validIndices = filter (\<lambda>j. \<not> ?bad j) [0..<length speeds]\<rparr>"
    unfolding r_def cleanGPSData_def Let_def flags_def [symmetric] accel_def [symmetric]
    using assms(1) by (subst clean_loop_spec) simp_all
  have l: "length (c_speeds r) = length speeds" "length (c_paces r) = length speeds"
    by (simp_all add: r)
  have sp: "c_speeds r ! i = (if invalid i then None else speeds ! i)"
    and pa: "c_paces r ! i = (if invalid i then None else paces ! i)"
    if "i < length speeds" for i
    using that bad [of i] by (simp_all add: r)
  have inv_None: "invalid i" if "i < length speeds" "speeds ! i = None" for i
    using that aNone [of i] by (simp add: invalid_def)
  have together: "c_speeds r ! i = None \<longleftrightarrow> c_paces r ! i = None" if "i < length speeds" for i
    using that assms(2) inv_None [of i] by (auto simp: sp pa)
  have vi: "validIndices r = filter (\<lambda>i. \<not> invalid i) [0..<length speeds]"
    unfolding r using bad by (auto intro: filter_cong)
  have valid: "\<exists>s. c_speeds r ! i = Some s \<and> speeds ! i = Some s \<and> 0 \<le> s \<and> s \<le> maxSpeed"
    if "i \<in> set (validIndices r)" for i
  proof -
    from that have i: "i < length speeds" "\<not> invalid i" by (auto simp: vi)
    with inv_None [of i] obtain s where s: "speeds ! i = Some s" by (cases "speeds ! i") auto
    with i show ?thesis by (auto simp: sp invalid_def)
  qed
  have "length (c_speeds r) = length speeds \<and> length (c_paces r) = length speeds
      \<and> (\<forall>i < length speeds. c_speeds r ! i = None \<longleftrightarrow> c_paces r ! i = None)
      \<and> (\<forall>i < length speeds. invalid i \<longrightarrow> c_speeds r ! i = None \<and> c_paces r ! i = None)
      \<and> (\<forall>i < length speeds. \<not> invalid i \<longrightarrow>
            c_speeds r ! i = speeds ! i \<and> c_paces r ! i = paces ! i)
      \<and> validIndices r = filter (\<lambda>i. \<not> invalid i) [0..<length speeds]
      \<and> (\<forall>i \<in> set (validIndices r). \<exists>s. c_speeds r ! i = Some s \<and> speeds ! i = Some s \<and>
            0 \<le> s \<and> s \<le> maxSpeed)"
    using l together vi valid by (simp add: sp pa)
  then show ?thesis
    unfolding Let_def r_def flags_def accel_def invalid_def .
qed

lemma jump_loop_eq:
  "i \<le> length coordinates \<Longrightarrow>
   jump_loop coordinates ts m i acc =
   acc @ map (jump_step coordinates ts m) [i..<length coordinates]"
proof (induction coordinates ts m i acc rule: jump_loop.induct)
  case (1 coordinates ts m i acc)
  show ?case
  proof (cases "i < length coordinates")
    case True
    then have "jump_loop coordinates ts m i acc =
        (acc @ [jump_step coordinates ts m i]) @
        map (jump_step coordinates ts m) [i + 1..<length coordinates]"
      using "1.IH" by (subst jump_loop.simps) simp
    also have "\<dots> = acc @ map (jump_step coordinates ts m) [i..<length coordinates]"
      using True by (simp add: upt_conv_Cons)
    finally show ?thesis .
  next
    case False
    with "1.prems" show ?thesis by (subst jump_loop.simps) simp
  qed
qed

lemma filterDistanceJumps_length:
  "length (filterDistanceJumps coordinates ts m) = length coordinates"
  by (auto simp: filterDistanceJumps_def jump_loop_eq)

theorem cleanGPSData_spec_witness:
  "length [None, Some 5.5, Some (0.4::real)] = length [None, Some 11, Some (150::real)]
   \<and> ([None, Some 11, Some (150::real)] ! 0 = None) = ([None, Some 5.5, Some (0.4::real)] ! 0 = None)
   \<and> ([None, Some 11, Some (150::real)] ! 1 = None) = ([None, Some 5.5, Some (0.4::real)] ! 1 = None)
   \<and> ([None, Some 11, Some (150::real)] ! 2 = None) = ([None, Some 5.5, Some (0.4::real)] ! 2 = None)
   \<and> validIndices (cleanGPSData [None, Some 11, Some 150] [None, Some 5.5, Some 0.4]
        [\<lparr>lat = 0, lng = 0\<rparr>, \<lparr>lat = 0, lng = 0\<rparr>, \<lparr>lat = 0, lng = 0\<rparr>]
        [Some 0, Some 10000, Some 20000] 35) = [1]
   \<and> c_speeds (cleanGPSData [None, Some 11, Some 150] [None, Some 5.5, Some 0.4]
        [\<lparr>lat = 0, lng = 0\<rparr>, \<lparr>lat = 0, lng = 0\<rparr>, \<lparr>lat = 0, lng = 0\<rparr>]
        [Some 0, Some 10000, Some 20000] 35) ! 2 = None
   \<and> c_paces (cleanGPSData [None, Some 11, Some 150] [None, Some 5.5, Some 0.4]
        [\<lparr>lat = 0, lng = 0\<rparr>, \<lparr>lat = 0, lng = 0\<rparr>, \<lparr>lat = 0, lng = 0\<rparr>]
        [Some 0, Some 10000, Some 20000] 35) ! 1 = Some 5.5"
proof -
  let ?sp = "[None, Some 11, Some (150::real)]"
  let ?pa = "[None, Some 5.5, Some (0.4::real)]"
  let ?co = "[\<lparr>lat = 0, lng = 0\<rparr>, \<lparr>lat = 0, lng = 0\<rparr>, \<lparr>lat = 0, lng = 0\<rparr>]"
  let ?ts = "[Some 0, Some 10000, Some (20000::int)]"
  have a: "length ?pa = length ?sp" by simp
  have b: "\<forall>i < length ?sp. ?sp ! i = None \<longleftrightarrow> ?pa ! i = None"
    by (simp add: less_Suc_eq all_conj_distrib)
  have fl: "filterDistanceJumps ?co ?ts 35 = [True, True, True]"
    by (simp add: filterDistanceJumps_def jump_loop_eq upt_conv_Cons jump_step_def read_def
        haversineDistance_same)
  have ac: "filterAccelerationSpikes ?sp ?ts 10 = [None, Some 11, Some 150]"
    by (simp add: filterAccelerationSpikes_def accel_loop_eq upt_conv_Cons accel_step_def
        read_def falsy_def)
  note th = cleanGPSData_spec [OF a b, of ?co ?ts 35, unfolded Let_def fl ac]
  have v: "validIndices (cleanGPSData ?sp ?pa ?co ?ts 35) = [1]"
    using th [THEN conjunct2, THEN conjunct2, THEN conjunct2, THEN conjunct2, THEN conjunct2,
        THEN conjunct1]
    by (simp add: upt_conv_Cons)
  have s2: "c_speeds (cleanGPSData ?sp ?pa ?co ?ts 35) ! 2 = None"
    using th [THEN conjunct2, THEN conjunct2, THEN conjunct2, THEN conjunct1, rule_format, of 2]
    by simp
  have p1: "c_paces (cleanGPSData ?sp ?pa ?co ?ts 35) ! 1 = Some 5.5"
    using th [THEN conjunct2, THEN conjunct2, THEN conjunct2, THEN conjunct2, THEN conjunct1,
        rule_format, of 1]
    by simp
  from v s2 p1 show ?thesis by simp
qed

section \<open>Distance-time index\<close>

record route =
  coordinates :: "coord list"
  timestamps :: "int option list"
  elevations :: "real option list"
  heartRates :: "real option list"












subsection \<open>The binary search brackets its target\<close>





subsection \<open>The map built from a route\<close>







section \<open>Time gaps between routes\<close>











subsection \<open>The sampling loop ends for a positive interval\<close>



















section \<open>Splits\<close>











record split =
  number :: nat
  startKm :: real
  endKm :: real
  distance :: real
  isPartial :: bool
  pace :: "real option"
  elevGain :: real
  avgHR :: "real option"




subsection \<open>Closed forms of the loops\<close>





subsection \<open>The split loop ends for a positive split distance\<close>







section \<open>Validation of parsed points\<close>

text \<open>
  A raw numeric field as the parser hands it over: \<^verbatim>\<open>null\<close> or
  \<^verbatim>\<open>undefined\<close>, NaN, an infinity, or a finite number.
\<close>

datatype rawnum = Missing | NotNumber | Infinite | Finite real

text \<open>
  A raw timestamp: \<^verbatim>\<open>null\<close> or \<^verbatim>\<open>undefined\<close>, a value that is not a
  \<^verbatim>\<open>Date\<close>, a \<^verbatim>\<open>Date\<close> whose time is NaN, or a \<^verbatim>\<open>Date\<close> with its
  time value.
\<close>

datatype rawts = TsMissing | TsNotDate | TsInvalidDate | TsDate int

datatype reason =
  R_missing | R_invalid_number | R_lat_out_of_range | R_lng_out_of_range
  | R_out_of_range | R_invalid_date | R_not_chronological

datatype 'a validation = Valid 'a | Invalid reason

definition LAT_MIN :: real where "LAT_MIN = - 90"
definition LAT_MAX :: real where "LAT_MAX = 90"
definition LNG_MIN :: real where "LNG_MIN = - 180"
definition LNG_MAX :: real where "LNG_MAX = 180"
definition ELEV_MIN :: real where "ELEV_MIN = - 500"
definition ELEV_MAX :: real where "ELEV_MAX = 9000"

fun validateCoordinate :: "rawnum \<Rightarrow> rawnum \<Rightarrow> unit validation" where
  "validateCoordinate Missing _ = Invalid R_missing"
| "validateCoordinate _ Missing = Invalid R_missing"
| "validateCoordinate (Finite la) (Finite lo) =
     (if la < LAT_MIN \<or> la > LAT_MAX then Invalid R_lat_out_of_range
      else if lo < LNG_MIN \<or> lo > LNG_MAX then Invalid R_lng_out_of_range
      else Valid ())"
| "validateCoordinate _ _ = Invalid R_invalid_number"

fun validateElevation :: "rawnum \<Rightarrow> real option validation" where
  "validateElevation Missing = Valid None"
| "validateElevation NotNumber = Invalid R_invalid_number"
| "validateElevation Infinite = Invalid R_invalid_number"
| "validateElevation (Finite e) =
     (if e < ELEV_MIN \<or> e > ELEV_MAX then Invalid R_out_of_range else Valid (Some e))"

text \<open>\<open>prevTimestamp\<close> is a \<^verbatim>\<open>Date\<close> or \<^verbatim>\<open>null\<close>; a \<^verbatim>\<open>Date\<close> is truthy.\<close>

fun validateTimestamp :: "rawts \<Rightarrow> int option \<Rightarrow> int option validation" where
  "validateTimestamp TsMissing prevTimestamp = Valid None"
| "validateTimestamp TsNotDate prevTimestamp = Invalid R_invalid_date"
| "validateTimestamp TsInvalidDate prevTimestamp = Invalid R_invalid_date"
| "validateTimestamp (TsDate t) prevTimestamp =
     (case prevTimestamp of
        Some p \<Rightarrow> if t < p then Invalid R_not_chronological else Valid (Some t)
      | None \<Rightarrow> Valid (Some t))"

record raw_coord =
  r_lat :: rawnum
  r_lng :: rawnum

record rawData =
  raw_coordinates :: "raw_coord list"
  raw_elevations :: "rawnum list"
  raw_timestamps :: "rawts list"
  raw_heartRates :: "real option list"
  raw_cadences :: "real option list"
  raw_powers :: "real option list"

text \<open>
  The \<^verbatim>\<open>i\<close>-th message of \<^verbatim>\<open>warnings\<close>, by the field it names, the point index
  and the reason.
\<close>

datatype warning =
  W_coordinate nat reason | W_elevation nat reason | W_timestamp nat reason

record validated =
  v_coordinates :: "raw_coord list"
  v_elevations :: "real option list"
  v_timestamps :: "int option list"
  v_heartRates :: "real option list"
  v_cadences :: "real option list"
  v_powers :: "real option list"
  skipped :: nat
  warnings :: "warning list"

text \<open>Reads of the raw arrays past their end give \<^verbatim>\<open>undefined\<close>.\<close>

definition elevation_at :: "rawData \<Rightarrow> nat \<Rightarrow> rawnum" where
  "elevation_at raw i =
     (if i < length (raw_elevations raw) then raw_elevations raw ! i else Missing)"

definition timestamp_at :: "rawData \<Rightarrow> nat \<Rightarrow> rawts" where
  "timestamp_at raw i =
     (if i < length (raw_timestamps raw) then raw_timestamps raw ! i else TsMissing)"

text \<open>One iteration of the loop: the validated record and \<open>lastValidTimestamp\<close>.\<close>

definition validate_step :: "rawData \<Rightarrow> nat \<Rightarrow> validated \<times> int option \<Rightarrow> validated \<times> int option" where
  "validate_step raw i st =
     (let (v, lastValidTimestamp) = st;
          crd = raw_coordinates raw ! i
      in case validateCoordinate (r_lat crd) (r_lng crd) of
           Invalid why \<Rightarrow>
             (v\<lparr>skipped := skipped v + 1,
                warnings := warnings v @ [W_coordinate i why]\<rparr>, lastValidTimestamp)
         | Valid _ \<Rightarrow>
             let elevResult = validateElevation (elevation_at raw i);
                 w1 = (case elevResult of
                         Invalid why \<Rightarrow> warnings v @ [W_elevation i why]
                       | Valid _ \<Rightarrow> warnings v);
                 tsResult = validateTimestamp (timestamp_at raw i) lastValidTimestamp;
                 w2 = (case tsResult of
                         Invalid why \<Rightarrow> w1 @ [W_timestamp i why]
                       | Valid _ \<Rightarrow> w1);
                 lastValidTimestamp' =
                   (case tsResult of
                      Valid (Some t) \<Rightarrow> Some t
                    | _ \<Rightarrow> lastValidTimestamp)
             in (v\<lparr>v_coordinates := v_coordinates v @ [crd],
                   v_elevations := v_elevations v @
                     [case elevResult of Valid e \<Rightarrow> e | Invalid _ \<Rightarrow> None],
                   v_timestamps := v_timestamps v @
                     [case tsResult of Valid t \<Rightarrow> t | Invalid _ \<Rightarrow> None],
                   v_heartRates := v_heartRates v @ [read (raw_heartRates raw) i],
                   v_cadences := v_cadences v @ [read (raw_cadences raw) i],
                   v_powers := v_powers v @ [read (raw_powers raw) i],
                   warnings := w2\<rparr>, lastValidTimestamp'))"

function validate_loop :: "rawData \<Rightarrow> nat \<Rightarrow> validated \<times> int option \<Rightarrow> validated \<times> int option" where
  "validate_loop raw i st =
     (if i < length (raw_coordinates raw)
      then validate_loop raw (i + 1) (validate_step raw i st)
      else st)"
  by pat_completeness auto
termination
  by (relation "measure (\<lambda>(raw, i, st). length (raw_coordinates raw) - i)") auto

declare validate_loop.simps [simp del]

definition validateParsedData :: "rawData \<Rightarrow> validated" where
  "validateParsedData raw =
     fst (validate_loop raw 0
       (\<lparr>v_coordinates = [], v_elevations = [], v_timestamps = [], v_heartRates = [],
         v_cadences = [], v_powers = [], skipped = 0, warnings = []\<rparr>, None))"

subsection \<open>The loop invariant\<close>

definition coord_result :: "rawData \<Rightarrow> nat \<Rightarrow> unit validation" where
  "coord_result raw i =
     validateCoordinate (r_lat (raw_coordinates raw ! i)) (r_lng (raw_coordinates raw ! i))"

definition kept :: "rawData \<Rightarrow> nat \<Rightarrow> nat list" where
  "kept raw i = filter (\<lambda>k. coord_result raw k = Valid ()) [0..<i]"

definition elev_out :: "rawData \<Rightarrow> nat \<Rightarrow> real option" where
  "elev_out raw i =
     (case validateElevation (elevation_at raw i) of Valid e \<Rightarrow> e | Invalid _ \<Rightarrow> None)"

text \<open>
  A timestamp is accepted at position \<open>j\<close> exactly when it is a valid date not earlier
  than any timestamp accepted before it.
\<close>

definition ts_accepted :: "rawData \<Rightarrow> nat list \<Rightarrow> int option list \<Rightarrow> bool" where
  "ts_accepted raw ks ts \<longleftrightarrow>
     (\<forall>j < length ks. \<forall>t. ts ! j = Some t \<longleftrightarrow>
        timestamp_at raw (ks ! j) = TsDate t \<and>
        (\<forall>j' < j. \<forall>u. ts ! j' = Some u \<longrightarrow> u \<le> t))"

definition validate_inv :: "rawData \<Rightarrow> nat \<Rightarrow> validated \<times> int option \<Rightarrow> bool" where
  "validate_inv raw i st \<longleftrightarrow>
     (let (v, lastValid) = st; ks = kept raw i
      in v_coordinates v = map (\<lambda>k. raw_coordinates raw ! k) ks
       \<and> v_elevations v = map (elev_out raw) ks
       \<and> v_heartRates v = map (read (raw_heartRates raw)) ks
       \<and> v_cadences v = map (read (raw_cadences raw)) ks
       \<and> v_powers v = map (read (raw_powers raw)) ks
       \<and> length (v_timestamps v) = length ks
       \<and> skipped v + length ks = i
       \<and> ts_accepted raw ks (v_timestamps v)
       \<and> (\<forall>u. Some u \<in> set (v_timestamps v) \<longrightarrow> (\<exists>p. lastValid = Some p \<and> u \<le> p))
       \<and> (\<forall>p. lastValid = Some p \<longrightarrow> Some p \<in> set (v_timestamps v))
       \<and> (\<forall>k why. W_coordinate k why \<in> set (warnings v) \<longleftrightarrow>
             k < i \<and> coord_result raw k = Invalid why))"

lemma kept_Suc:
  "kept raw (Suc i) = (if coord_result raw i = Valid () then kept raw i @ [i] else kept raw i)"
  by (simp add: kept_def)

lemma validate_step_invalid:
  assumes "coord_result raw i = Invalid why"
  shows "validate_step raw i (v, l) =
     (v\<lparr>skipped := skipped v + 1, warnings := warnings v @ [W_coordinate i why]\<rparr>, l)"
  using assms by (simp add: validate_step_def coord_result_def Let_def)

definition ts_out :: "rawData \<Rightarrow> nat \<Rightarrow> int option \<Rightarrow> int option" where
  "ts_out raw i l =
     (case validateTimestamp (timestamp_at raw i) l of Valid t \<Rightarrow> t | Invalid _ \<Rightarrow> None)"

lemma validate_step_valid:
  assumes "coord_result raw i = Valid ()"
  shows "\<exists>w. validate_step raw i (v, l) =
     (v\<lparr>v_coordinates := v_coordinates v @ [raw_coordinates raw ! i],
        v_elevations := v_elevations v @ [elev_out raw i],
        v_timestamps := v_timestamps v @ [ts_out raw i l],
        v_heartRates := v_heartRates v @ [read (raw_heartRates raw) i],
        v_cadences := v_cadences v @ [read (raw_cadences raw) i],
        v_powers := v_powers v @ [read (raw_powers raw) i],
        warnings := warnings v @ w\<rparr>,
      case ts_out raw i l of Some t \<Rightarrow> Some t | None \<Rightarrow> l)
     \<and> (\<forall>k why. W_coordinate k why \<notin> set w)"
proof -
  define w where "w =
     (case validateElevation (elevation_at raw i) of
        Invalid why \<Rightarrow> [W_elevation i why] | Valid _ \<Rightarrow> []) @
     (case validateTimestamp (timestamp_at raw i) l of
        Invalid why \<Rightarrow> [W_timestamp i why] | Valid _ \<Rightarrow> [])"
  have nw: "\<forall>k why. W_coordinate k why \<notin> set w"
    by (auto simp: w_def split: validation.splits)
  have "validate_step raw i (v, l) =
     (v\<lparr>v_coordinates := v_coordinates v @ [raw_coordinates raw ! i],
        v_elevations := v_elevations v @ [elev_out raw i],
        v_timestamps := v_timestamps v @ [ts_out raw i l],
        v_heartRates := v_heartRates v @ [read (raw_heartRates raw) i],
        v_cadences := v_cadences v @ [read (raw_cadences raw) i],
        v_powers := v_powers v @ [read (raw_powers raw) i],
        warnings := warnings v @ w\<rparr>,
      case ts_out raw i l of Some t \<Rightarrow> Some t | None \<Rightarrow> l)"
    using assms
    by (auto simp: validate_step_def coord_result_def Let_def elev_out_def ts_out_def w_def
        split: validation.splits option.splits)
  with nw show ?thesis by blast
qed

lemma ts_out_Some:
  "ts_out raw i l = Some t \<longleftrightarrow>
   timestamp_at raw i = TsDate t \<and> (\<forall>p. l = Some p \<longrightarrow> p \<le> t)"
  by (cases "timestamp_at raw i"; cases l) (auto simp: ts_out_def)

lemma ts_accepted_append:
  assumes acc: "ts_accepted raw ks ts" and len: "length ts = length ks"
    and upper: "\<forall>u. Some u \<in> set ts \<longrightarrow> (\<exists>p. l = Some p \<and> u \<le> p)"
    and mem: "\<forall>p. l = Some p \<longrightarrow> Some p \<in> set ts"
  shows "ts_accepted raw (ks @ [i]) (ts @ [ts_out raw i l])"
  unfolding ts_accepted_def
proof (intro allI impI)
  fix j t
  assume j: "j < length (ks @ [i])"
  show "(ts @ [ts_out raw i l]) ! j = Some t \<longleftrightarrow>
        timestamp_at raw ((ks @ [i]) ! j) = TsDate t \<and>
        (\<forall>j' < j. \<forall>u. (ts @ [ts_out raw i l]) ! j' = Some u \<longrightarrow> u \<le> t)"
  proof (cases "j < length ks")
    case True
    then have "\<forall>j' < j. (ts @ [ts_out raw i l]) ! j' = ts ! j'"
      using len by (simp add: nth_append)
    with True acc len show ?thesis
      unfolding ts_accepted_def by (simp add: nth_append)
  next
    case False
    with j have jl: "j = length ks" by simp
    have prev: "(\<forall>j' < j. \<forall>u. (ts @ [ts_out raw i l]) ! j' = Some u \<longrightarrow> u \<le> t) \<longleftrightarrow>
                (\<forall>u. Some u \<in> set ts \<longrightarrow> u \<le> t)"
      using len jl by (auto simp: nth_append in_set_conv_nth)
    have "(\<forall>p. l = Some p \<longrightarrow> p \<le> t) \<longleftrightarrow> (\<forall>u. Some u \<in> set ts \<longrightarrow> u \<le> t)"
    proof
      assume a: "\<forall>p. l = Some p \<longrightarrow> p \<le> t"
      show "\<forall>u. Some u \<in> set ts \<longrightarrow> u \<le> t"
      proof (intro allI impI)
        fix u assume "Some u \<in> set ts"
        with upper obtain p where "l = Some p" "u \<le> p" by blast
        with a show "u \<le> t" by force
      qed
    next
      assume "\<forall>u. Some u \<in> set ts \<longrightarrow> u \<le> t"
      with mem show "\<forall>p. l = Some p \<longrightarrow> p \<le> t" by blast
    qed
    with prev jl len show ?thesis by (simp add: nth_append ts_out_Some)
  qed
qed

lemma validate_inv_step:
  assumes "validate_inv raw i st" 
  shows "validate_inv raw (Suc i) (validate_step raw i st)"
proof -
  obtain v l where st: "st = (v, l)" by (cases st)
  note inv = assms [unfolded st validate_inv_def Let_def, simplified]
  show ?thesis
  proof (cases "coord_result raw i")
    case (Invalid why)
    have "k < Suc i \<and> coord_result raw k = Invalid why' \<longleftrightarrow>
          (k < i \<and> coord_result raw k = Invalid why') \<or> (k = i \<and> why' = why)" for k why'
      using Invalid by (auto simp: less_Suc_eq)
    with inv Invalid show ?thesis
      unfolding st validate_step_invalid [OF Invalid]
      by (simp add: validate_inv_def Let_def kept_Suc) blast
  next
    case (Valid u)
    then have ok: "coord_result raw i = Valid ()" by simp
    from validate_step_valid [OF ok, of v l] obtain w where
      step: "validate_step raw i (v, l) =
     (v\<lparr>v_coordinates := v_coordinates v @ [raw_coordinates raw ! i],
        v_elevations := v_elevations v @ [elev_out raw i],
        v_timestamps := v_timestamps v @ [ts_out raw i l],
        v_heartRates := v_heartRates v @ [read (raw_heartRates raw) i],
        v_cadences := v_cadences v @ [read (raw_cadences raw) i],
        v_powers := v_powers v @ [read (raw_powers raw) i],
        warnings := warnings v @ w\<rparr>,
      case ts_out raw i l of Some t \<Rightarrow> Some t | None \<Rightarrow> l)"
      and nw: "\<forall>k why. W_coordinate k why \<notin> set w" by blast
    have acc: "ts_accepted raw (kept raw i @ [i]) (v_timestamps v @ [ts_out raw i l])"
      using inv by (intro ts_accepted_append) auto
    have upper: "\<exists>p. (case ts_out raw i l of Some t \<Rightarrow> Some t | None \<Rightarrow> l) = Some p \<and> u \<le> p"
      if "Some u \<in> set (v_timestamps v @ [ts_out raw i l])" for u
    proof (cases "ts_out raw i l")
      case None
      with that inv show ?thesis by auto
    next
      case (Some t)
      then have t: "\<forall>p. l = Some p \<longrightarrow> p \<le> t" by (simp add: ts_out_Some)
      from that Some consider "u = t" | "Some u \<in> set (v_timestamps v)" by auto
      then show ?thesis
      proof cases
        case 1
        with Some show ?thesis by simp
      next
        case 2
        with inv obtain p where "l = Some p" "u \<le> p" by blast
        with t Some show ?thesis by force
      qed
    qed
    have mem: "Some p \<in> set (v_timestamps v @ [ts_out raw i l])"
      if "(case ts_out raw i l of Some t \<Rightarrow> Some t | None \<Rightarrow> l) = Some p" for p
      using that inv by (cases "ts_out raw i l") auto
    have warn: "W_coordinate k why \<in> set (warnings v @ w) \<longleftrightarrow>
                k < Suc i \<and> coord_result raw k = Invalid why" for k why
      using inv nw ok by (auto simp: less_Suc_eq)
    from inv ok acc upper mem warn show ?thesis
      unfolding st step
      by (simp add: validate_inv_def Let_def kept_Suc)
  qed
qed

lemma validate_loop_inv:
  assumes "validate_inv raw i st" "i \<le> length (raw_coordinates raw)"
  shows "validate_inv raw (length (raw_coordinates raw)) (validate_loop raw i st)"
  using assms
proof (induction raw i st rule: validate_loop.induct)
  case (1 raw i st)
  show ?case
  proof (cases "i < length (raw_coordinates raw)")
    case True
    have "validate_inv raw (i + 1) (validate_step raw i st)"
      using validate_inv_step [OF "1.prems"(1)] by simp
    then have "validate_inv raw (length (raw_coordinates raw))
                 (validate_loop raw (i + 1) (validate_step raw i st))"
      using True by (intro "1.IH") auto
    moreover have "validate_loop raw i st = validate_loop raw (i + 1) (validate_step raw i st)"
      by (subst validate_loop.simps) (simp only: True if_True)
    ultimately show ?thesis by simp
  next
    case False
    with "1.prems" have "i = length (raw_coordinates raw)" by simp
    with "1.prems"(1) False show ?thesis by (subst validate_loop.simps) simp
  qed
qed

text \<open>
  C4: \<open>validateParsedData\<close> keeps exactly the points whose coordinate is valid, in
  order; each dropped point adds 1 to \<open>skipped\<close> and a coordinate warning; the six
  result arrays have length \<open>N - skipped\<close> and hold, at each position, the fields of
  the same kept point; an invalid elevation becomes null at its position; a timestamp
  is kept exactly when it is a valid date not earlier than every timestamp accepted
  before it (so an equal one is accepted, a strictly earlier one is nulled, and a dropped
  or nulled timestamp does not count), and is null otherwise.
\<close>

theorem validateParsedData_spec:
  "let v = validateParsedData raw;
       N = length (raw_coordinates raw);
       ok = (\<lambda>i. validateCoordinate (r_lat (raw_coordinates raw ! i))
                    (r_lng (raw_coordinates raw ! i)) = Valid ());
       ks = filter ok [0..<N]
   in skipped v + length ks = N
    \<and> (\<forall>i why. W_coordinate i why \<in> set (warnings v) \<longleftrightarrow>
          i < N \<and> validateCoordinate (r_lat (raw_coordinates raw ! i))
                    (r_lng (raw_coordinates raw ! i)) = Invalid why)
    \<and> length (v_coordinates v) = N - skipped v
    \<and> length (v_elevations v) = N - skipped v
    \<and> length (v_timestamps v) = N - skipped v
    \<and> length (v_heartRates v) = N - skipped v
    \<and> length (v_cadences v) = N - skipped v
    \<and> length (v_powers v) = N - skipped v
    \<and> v_coordinates v = map (\<lambda>i. raw_coordinates raw ! i) ks
    \<and> v_elevations v =
        map (\<lambda>i. case validateElevation (elevation_at raw i) of
                    Valid e \<Rightarrow> e | Invalid _ \<Rightarrow> None) ks
    \<and> v_heartRates v = map (read (raw_heartRates raw)) ks
    \<and> v_cadences v = map (read (raw_cadences raw)) ks
    \<and> v_powers v = map (read (raw_powers raw)) ks
    \<and> (\<forall>j < length ks. \<forall>t. v_timestamps v ! j = Some t \<longleftrightarrow>
          timestamp_at raw (ks ! j) = TsDate t \<and>
          (\<forall>j' < j. \<forall>u. v_timestamps v ! j' = Some u \<longrightarrow> u \<le> t))
    \<and> (\<forall>t p. validateTimestamp (TsDate t) (Some p) =
          (if t < p then Invalid R_not_chronological else Valid (Some t)))"
proof -
  define st where "st = validate_loop raw 0
       (\<lparr>v_coordinates = [], v_elevations = [], v_timestamps = [], v_heartRates = [],
         v_cadences = [], v_powers = [], skipped = 0, warnings = []\<rparr>, None)"
  have "validate_inv raw 0
       (\<lparr>v_coordinates = [], v_elevations = [], v_timestamps = [], v_heartRates = [],
         v_cadences = [], v_powers = [], skipped = 0, warnings = []\<rparr>, None)"
    by (simp add: validate_inv_def kept_def ts_accepted_def)
  then have "validate_inv raw (length (raw_coordinates raw)) st"
    unfolding st_def by (rule validate_loop_inv) simp
  moreover have "st = (validateParsedData raw, snd st)"
    by (simp add: validateParsedData_def st_def)
  ultimately have inv: "validate_inv raw (length (raw_coordinates raw))
                          (validateParsedData raw, snd st)" by simp
  have ks: "kept raw (length (raw_coordinates raw)) =
            filter (\<lambda>i. validateCoordinate (r_lat (raw_coordinates raw ! i))
                    (r_lng (raw_coordinates raw ! i)) = Valid ())
              [0..<length (raw_coordinates raw)]"
    by (simp add: kept_def coord_result_def)
  have eo: "elev_out raw = (\<lambda>i. case validateElevation (elevation_at raw i) of
                    Valid e \<Rightarrow> e | Invalid _ \<Rightarrow> None)"
    by (rule ext) (simp add: elev_out_def)
  have vt: "validateTimestamp (TsDate t) (Some p) =
          (if t < p then Invalid R_not_chronological else Valid (Some t))" for t p
    by simp
  note facts = inv [unfolded validate_inv_def Let_def prod.case ks eo ts_accepted_def
      coord_result_def]
  have sk: "skipped (validateParsedData raw) +
            length (filter (\<lambda>i. validateCoordinate (r_lat (raw_coordinates raw ! i))
                    (r_lng (raw_coordinates raw ! i)) = Valid ())
              [0..<length (raw_coordinates raw)]) = length (raw_coordinates raw)"
    using facts by blast
  then have len: "length (filter (\<lambda>i. validateCoordinate (r_lat (raw_coordinates raw ! i))
                    (r_lng (raw_coordinates raw ! i)) = Valid ())
              [0..<length (raw_coordinates raw)]) =
            length (raw_coordinates raw) - skipped (validateParsedData raw)"
    by simp
  have l1: "length (v_coordinates (validateParsedData raw)) =
            length (raw_coordinates raw) - skipped (validateParsedData raw)"
    and l2: "length (v_elevations (validateParsedData raw)) =
            length (raw_coordinates raw) - skipped (validateParsedData raw)"
    and l3: "length (v_timestamps (validateParsedData raw)) =
            length (raw_coordinates raw) - skipped (validateParsedData raw)"
    and l4: "length (v_heartRates (validateParsedData raw)) =
            length (raw_coordinates raw) - skipped (validateParsedData raw)"
    and l5: "length (v_cadences (validateParsedData raw)) =
            length (raw_coordinates raw) - skipped (validateParsedData raw)"
    and l6: "length (v_powers (validateParsedData raw)) =
            length (raw_coordinates raw) - skipped (validateParsedData raw)"
    using facts len by simp_all
  show ?thesis
    unfolding Let_def
    using facts l1 l2 l3 l4 l5 l6 vt by blast
qed

theorem validateParsedData_spec_witness:
  "validateParsedData
     \<lparr>raw_coordinates = [\<lparr>r_lat = Finite 45.5, r_lng = Finite (-122.6)\<rparr>,
                         \<lparr>r_lat = Finite 200, r_lng = Finite 0\<rparr>,
                         \<lparr>r_lat = Finite 45.6, r_lng = Finite (-122.5)\<rparr>],
      raw_elevations = [Finite 100, Finite 150, Finite 50000],
      raw_timestamps = [TsDate 2000, TsDate 3000, TsDate 1000],
      raw_heartRates = [Some 150, Some 155, None],
      raw_cadences = [Some 170, Some 175, Some 180],
      raw_powers = []\<rparr>
   = \<lparr>v_coordinates = [\<lparr>r_lat = Finite 45.5, r_lng = Finite (-122.6)\<rparr>,
                       \<lparr>r_lat = Finite 45.6, r_lng = Finite (-122.5)\<rparr>],
      v_elevations = [Some 100, None],
      v_timestamps = [Some 2000, None],
      v_heartRates = [Some 150, None],
      v_cadences = [Some 170, Some 180],
      v_powers = [None, None],
      skipped = 1,
      warnings = [W_coordinate 1 R_lat_out_of_range, W_elevation 2 R_out_of_range,
                  W_timestamp 2 R_not_chronological]\<rparr>"
proof -
  let ?raw = "\<lparr>raw_coordinates = [\<lparr>r_lat = Finite 45.5, r_lng = Finite (-122.6)\<rparr>,
                         \<lparr>r_lat = Finite 200, r_lng = Finite 0\<rparr>,
                         \<lparr>r_lat = Finite 45.6, r_lng = Finite (-122.5)\<rparr>],
      raw_elevations = [Finite 100, Finite 150, Finite 50000],
      raw_timestamps = [TsDate 2000, TsDate 3000, TsDate 1000],
      raw_heartRates = [Some 150, Some 155, None],
      raw_cadences = [Some 170, Some 175, Some 180],
      raw_powers = []\<rparr>"
  have ev: "validateParsedData ?raw
   = \<lparr>v_coordinates = [\<lparr>r_lat = Finite 45.5, r_lng = Finite (-122.6)\<rparr>,
                       \<lparr>r_lat = Finite 45.6, r_lng = Finite (-122.5)\<rparr>],
      v_elevations = [Some 100, None],
      v_timestamps = [Some 2000, None],
      v_heartRates = [Some 150, None],
      v_cadences = [Some 170, Some 180],
      v_powers = [None, None],
      skipped = 1,
      warnings = [W_coordinate 1 R_lat_out_of_range, W_elevation 2 R_out_of_range,
                  W_timestamp 2 R_not_chronological]\<rparr>"
    by (simp add: validateParsedData_def validate_loop.simps validate_step_def Let_def
        elevation_at_def timestamp_at_def read_def
        LAT_MIN_def LAT_MAX_def LNG_MIN_def LNG_MAX_def ELEV_MIN_def ELEV_MAX_def)
  have "length (v_timestamps (validateParsedData ?raw)) =
        length (raw_coordinates ?raw) - skipped (validateParsedData ?raw)"
    using validateParsedData_spec [of ?raw, unfolded Let_def] by blast
  with ev show ?thesis by simp
qed

section \<open>Zone analysis\<close>

text \<open>
  Modelled from the spec: the result records of \<^verbatim>\<open>calculateZones\<close>, whose body
  is not among the source files (the tests call it).  A zone has its index, the time
  attributed to it and its integer percentage; the summary has the 5 zones, the dominant
  zone and the minimum and maximum value.
\<close>

record zone =
  z_index :: nat
  z_time :: real
  percent :: int

record zone_summary =
  zones :: "zone list"
  dominantZone :: nat
  minVal :: real
  maxVal :: real

text \<open>
  Modelled from the spec: the zone of a value.  \<^verbatim>\<open>calculateZones\<close> is called by
  the tests but its body is not among the source files; section 4.9 of the specification
  divides \<open>[min, max]\<close> into 5 equal-width bins, zone 0 to zone 4.  The maximum itself
  belongs to zone 4, and a series with \<open>min = max\<close> lies in zone 0.
\<close>

definition zone_of :: "real \<Rightarrow> real \<Rightarrow> real \<Rightarrow> nat" where
  "zone_of lo hi v =
     (if hi = lo then 0 else min 4 (nat \<lfloor>(v - lo) / ((hi - lo) / 5)\<rfloor>))"

text \<open>
  Modelled from the spec: the time per zone.  For each consecutive pair of samples where
  the current value is non-null and the elapsed time is valid (both timestamps present,
  the difference positive), the elapsed seconds go to the zone of the current value.
\<close>

definition zone_step ::
  "real option list \<Rightarrow> int option list \<Rightarrow> real \<Rightarrow> real \<Rightarrow> nat \<Rightarrow> real list \<Rightarrow> real list" where
  "zone_step vals ts lo hi i acc =
     (case (read vals i, read ts i, read ts (i - 1)) of
        (Some v, Some t, Some tp) \<Rightarrow>
          (if t > tp
           then acc[zone_of lo hi v := acc ! zone_of lo hi v + real_of_int (t - tp) / 1000]
           else acc)
      | _ \<Rightarrow> acc)"

text \<open>
  Modelled from the spec: the pass over the consecutive pairs of samples, from index 1.
\<close>

function zone_times_loop ::
  "real option list \<Rightarrow> int option list \<Rightarrow> real \<Rightarrow> real \<Rightarrow> nat \<Rightarrow> real list \<Rightarrow> real list" where
  "zone_times_loop vals ts lo hi i acc =
     (if i < length vals
      then zone_times_loop vals ts lo hi (i + 1) (zone_step vals ts lo hi i acc)
      else acc)"
  by pat_completeness auto
termination
  by (relation "measure (\<lambda>(vals, ts, lo, hi, i, acc). length vals - i)") auto

declare zone_times_loop.simps [simp del]

text \<open>
  Modelled from the spec: the index of the largest entry (the first one, among equals).
\<close>

definition largest_index :: "'a::linorder list \<Rightarrow> nat" where
  "largest_index xs = length (takeWhile (\<lambda>x. x \<noteq> Max (set xs)) xs)"

text \<open>
  Modelled from the spec: the percentages.  Each zone's share of the total time is
  rounded to an integer, and the residual to 100 is added to the largest zone.  The
  specification does not say what the shares are when no time was attributed at all;
  they are 0 here before the adjustment.
\<close>

definition zone_percents :: "real list \<Rightarrow> int list" where
  "zone_percents zoneTimes =
     (let total = sum_list zoneTimes;
          rounded = map (\<lambda>t. if total = 0 then 0 else round (t / total * 100)) zoneTimes;
          residual = 100 - sum_list rounded;
          k = largest_index rounded
      in rounded[k := rounded ! k + residual])"

text \<open>
  Modelled from the spec: \<^verbatim>\<open>calculateZones(values, timestamps)\<close>, which is null for
  fewer than 10 non-null values and otherwise has 5 zones, the dominant zone, and the
  minimum and maximum of the non-null values.
\<close>

definition calculateZones :: "real option list \<Rightarrow> int option list \<Rightarrow> zone_summary option" where
  "calculateZones vals ts =
     (let valid = map the (filter (\<lambda>v. v \<noteq> None) vals)
      in if length valid < 10 then None
         else
           let lo = fold min (tl valid) (hd valid);
               hi = fold max (tl valid) (hd valid);
               zoneTimes = zone_times_loop vals ts lo hi 1 [0, 0, 0, 0, 0];
               percents = zone_percents zoneTimes
           in Some \<lparr>zones = map (\<lambda>k. \<lparr>z_index = k, z_time = zoneTimes ! k,
                                       percent = percents ! k\<rparr>) [0..<5],
                    dominantZone = largest_index percents,
                    minVal = lo, maxVal = hi\<rparr>)"

lemma zone_step_length: "length (zone_step vals ts lo hi i acc) = length acc"
  by (simp add: zone_step_def split: option.splits)

lemma zone_times_loop_length:
  "length (zone_times_loop vals ts lo hi i acc) = length acc"
proof (induction vals ts lo hi i acc rule: zone_times_loop.induct)
  case (1 vals ts lo hi i acc)
  show ?case
  proof (cases "i < length vals")
    case True
    have "zone_times_loop vals ts lo hi i acc =
          zone_times_loop vals ts lo hi (i + 1) (zone_step vals ts lo hi i acc)"
      by (subst zone_times_loop.simps) (simp only: True if_True)
    with "1.IH" [OF True] show ?thesis by (simp add: zone_step_length)
  next
    case False
    then show ?thesis by (subst zone_times_loop.simps) simp
  qed
qed

lemma takeWhile_stops:
  "\<exists>x \<in> set xs. \<not> P x \<Longrightarrow> length (takeWhile P xs) < length xs"
  by (induction xs) auto

lemma largest_index_less:
  assumes "xs \<noteq> []"
  shows "largest_index xs < length xs"
proof -
  have "Max (set xs) \<in> set xs" using assms by (intro Max_in) simp_all
  then have "\<exists>x \<in> set xs. \<not> x \<noteq> Max (set xs)" by blast
  then show ?thesis
    unfolding largest_index_def by (rule takeWhile_stops)
qed

lemma sum_list_update_add:
  fixes xs :: "int list"
  shows "k < length xs \<Longrightarrow> sum_list (xs[k := xs ! k + d]) = sum_list xs + d"
  by (induction xs arbitrary: k) (auto split: nat.splits)

lemma zone_percents_sum:
  assumes "zoneTimes \<noteq> []"
  shows "length (zone_percents zoneTimes) = length zoneTimes"
    and "sum_list (zone_percents zoneTimes) = 100"
proof -
  define total where "total = sum_list zoneTimes"
  define rounded where
    "rounded = map (\<lambda>t. if total = 0 then 0 else round (t / total * 100)) zoneTimes"
  define k where "k = largest_index rounded"
  have ne: "rounded \<noteq> []" using assms by (simp add: rounded_def)
  then have k: "k < length rounded" unfolding k_def by (rule largest_index_less)
  have zp: "zone_percents zoneTimes = rounded[k := rounded ! k + (100 - sum_list rounded)]"
    by (simp only: zone_percents_def Let_def total_def rounded_def k_def)
  show "length (zone_percents zoneTimes) = length zoneTimes"
    by (simp add: zp rounded_def)
  show "sum_list (zone_percents zoneTimes) = 100"
    using k by (simp add: zp sum_list_update_add)
qed

text \<open>
  C8: \<open>calculateZones\<close> is null when fewer than 10 values are non-null, and otherwise
  returns exactly 5 zones whose percentages sum to exactly 100.
\<close>

theorem calculateZones_spec:
  "(length (filter (\<lambda>v. v \<noteq> None) vals) < 10 \<longrightarrow> calculateZones vals ts = None)
   \<and> (10 \<le> length (filter (\<lambda>v. v \<noteq> None) vals) \<longrightarrow>
        (\<exists>res. calculateZones vals ts = Some res \<and> length (zones res) = 5 \<and>
               sum_list (map percent (zones res)) = 100))"
proof (intro conjI impI)
  assume "length (filter (\<lambda>v. v \<noteq> None) vals) < 10"
  then show "calculateZones vals ts = None" by (simp add: calculateZones_def)
next
  assume ge: "10 \<le> length (filter (\<lambda>v. v \<noteq> None) vals)"
  define valid where "valid = map the (filter (\<lambda>v. v \<noteq> None) vals)"
  define zt where "zt = zone_times_loop vals ts (fold min (tl valid) (hd valid))
                          (fold max (tl valid) (hd valid)) 1 [0, 0, 0, 0, 0]"
  define res where "res = \<lparr>zones = map (\<lambda>k. \<lparr>z_index = k, z_time = zt ! k,
                                       percent = zone_percents zt ! k\<rparr>) [0..<5],
                    dominantZone = largest_index (zone_percents zt),
                    minVal = fold min (tl valid) (hd valid),
                    maxVal = fold max (tl valid) (hd valid)\<rparr>"
  have call: "calculateZones vals ts = Some res"
    using ge by (simp add: calculateZones_def Let_def valid_def zt_def res_def)
  have len: "length zt = 5" by (simp add: zt_def zone_times_loop_length)
  then have ne: "zt \<noteq> []" by auto
  have lp: "length (zone_percents zt) = 5" using zone_percents_sum(1) [OF ne] len by simp
  have "map percent (zones res) = map (\<lambda>k. zone_percents zt ! k) [0..<5]"
    by (simp add: res_def comp_def)
  also have "\<dots> = zone_percents zt" using lp by (metis map_nth)
  finally have "sum_list (map percent (zones res)) = 100"
    using zone_percents_sum(2) [OF ne] by simp
  moreover have "length (zones res) = 5" by (simp add: res_def)
  ultimately show "\<exists>res. calculateZones vals ts = Some res \<and> length (zones res) = 5 \<and>
               sum_list (map percent (zones res)) = 100"
    using call by blast
qed

theorem calculateZones_spec_witness:
  "calculateZones [Some 100, Some 110] [Some 1000, Some 2000] = None
   \<and> (\<exists>res. calculateZones
          [Some 100, None, Some 110, Some 120, Some 130, Some 140, Some 150, Some 160,
           Some 170, Some 180, Some 190, Some 200]
          [Some 1000, Some 2000, Some 3000, Some 4000, Some 5000, Some 6000, Some 7000,
           Some 8000, Some 9000, Some 10000, Some 11000, Some 12000] = Some res
        \<and> length (zones res) = 5 \<and> sum_list (map percent (zones res)) = 100)"
proof
  show "calculateZones [Some 100, Some 110] [Some 1000, Some 2000] = None"
    using calculateZones_spec [of "[Some 100, Some 110]" "[Some 1000, Some 2000]"] by simp
  show "\<exists>res. calculateZones
          [Some 100, None, Some 110, Some 120, Some 130, Some 140, Some 150, Some 160,
           Some 170, Some 180, Some 190, Some 200]
          [Some 1000, Some 2000, Some 3000, Some 4000, Some 5000, Some 6000, Some 7000,
           Some 8000, Some 9000, Some 10000, Some 11000, Some 12000] = Some res
        \<and> length (zones res) = 5 \<and> sum_list (map percent (zones res)) = 100"
    using calculateZones_spec [of
          "[Some 100, None, Some 110, Some 120, Some 130, Some 140, Some 150, Some 160,
           Some 170, Some 180, Some 190, Some 200]"
          "[Some 1000, Some 2000, Some 3000, Some 4000, Some 5000, Some 6000, Some 7000,
           Some 8000, Some 9000, Some 10000, Some 11000, Some 12000]"]
    by simp
qed

end
